theory Spec2Isabelle
  imports Main "HOL-Library.Multiset"
begin

section \<open>Python strings\<close>

text \<open>
  A Python \<open>str\<close> is a sequence of Unicode code points, and the program uses letters
  outside ASCII (in two month names, in the salary suffix and in two sentinels), so a
  string is modelled as the list of its code points. \<open>ascii\<close> turns an ASCII literal
  into such a list; the three Polish letters the program needs are written by number.
\<close>

type_synonym pystr = "nat list"

definition ascii :: "string \<Rightarrow> pystr" where
  "ascii s = map of_char s"

definition l_stroke :: nat where "l_stroke = 322"   \<comment> \<open>U+0142\<close>
definition s_acute :: nat where "s_acute = 347"     \<comment> \<open>U+015B\<close>
definition z_acute :: nat where "z_acute = 378"     \<comment> \<open>U+017A\<close>

text \<open>\<open>str.isspace\<close> for one code point: the characters \<open>strip()\<close> and \<open>split()\<close> remove.\<close>

definition isspace :: "nat \<Rightarrow> bool" where
  "isspace c \<longleftrightarrow>
     (9 \<le> c \<and> c \<le> 13) \<or> (28 \<le> c \<and> c \<le> 32) \<or> c = 133 \<or> c = 160 \<or> c = 5760 \<or>
     (8192 \<le> c \<and> c \<le> 8202) \<or> c = 8232 \<or> c = 8233 \<or> c = 8239 \<or> c = 8287 \<or> c = 12288"

text \<open>\<open>s.strip()\<close>: leading and trailing whitespace removed.\<close>

definition py_strip :: "pystr \<Rightarrow> pystr" where
  "py_strip s = rev (dropWhile isspace (rev (dropWhile isspace s)))"

text \<open>
  \<open>s.split()\<close> with no argument: the maximal runs of non-whitespace, in order; \<open>cur\<close>
  is the token being read.
\<close>

fun split_from :: "pystr \<Rightarrow> pystr \<Rightarrow> pystr list" where
  "split_from cur [] = (if cur = [] then [] else [cur])"
| "split_from cur (c # cs) =
     (if isspace c then (if cur = [] then split_from [] cs else cur # split_from [] cs)
      else split_from (cur @ [c]) cs)"

definition py_split :: "pystr \<Rightarrow> pystr list" where
  "py_split s = split_from [] s"

text \<open>
  \<open>s.replace(old, new)\<close>: every occurrence of \<open>old\<close>, found from the left without
  overlap, is replaced. An empty \<open>old\<close> matches before every character and at the end.
\<close>

function py_replace :: "pystr \<Rightarrow> pystr \<Rightarrow> pystr \<Rightarrow> pystr" where
  "py_replace old new [] = (if old = [] then new else [])"
| "py_replace old new (c # cs) =
     (if old = [] then new @ c # py_replace old new cs
      else if take (length old) (c # cs) = old
           then new @ py_replace old new (drop (length old) (c # cs))
           else c # py_replace old new cs)"
  by pat_completeness auto
termination
  by (relation "measure (\<lambda>(old, new, s). length s)") auto

text \<open>
  \<open>s.zfill(width)\<close>: zeros are put on the left up to \<open>width\<close> characters, after a
  leading sign if there is one; a string that is long enough is returned as it is.
\<close>

definition zfill :: "nat \<Rightarrow> pystr \<Rightarrow> pystr" where
  "zfill width s =
     (if width \<le> length s then s
      else case s of
             [] \<Rightarrow> replicate width 48
           | c # cs \<Rightarrow>
               if c = 43 \<or> c = 45 then c # replicate (width - length s) 48 @ cs
               else replicate (width - length s) 48 @ s)"

text \<open>\<open>str(n)\<close> for a natural number, as the log line of \<open>process_url\<close> formats it.\<close>

fun str_nat :: "nat \<Rightarrow> pystr" where
  "str_nat n = (if n < 10 then [48 + n] else str_nat (n div 10) @ [48 + n mod 10])"

declare str_nat.simps [simp del]

section \<open>Exceptions and the log\<close>

text \<open>
  The exceptions that leave a function of the program: \<open>KeyError\<close> with its key,
  \<open>BrowserError\<close> for what the browser driver raises. An exception that is caught and
  logged is given by the text \<open>str(e)\<close> that the log line prints.
\<close>

datatype error =
    ValueError
  | UnicodeEncodeError
  | KeyError pystr
  | BrowserError pystr

datatype level = INFO | WARNING | ERROR

type_synonym log_line = "level \<times> pystr"

section \<open>PracujPlScraper: date and salary\<close>

definition brak_daty :: pystr where
  "brak_daty = ascii ''Brak daty''"

definition opublikowana :: pystr where
  "opublikowana = ascii ''Opublikowana:''"

definition polish_months :: "pystr \<rightharpoonup> pystr" where
  "polish_months = map_of
     [(ascii ''stycznia'', ascii ''01''), (ascii ''lutego'', ascii ''02''),
      (ascii ''marca'', ascii ''03''), (ascii ''kwietnia'', ascii ''04''),
      (ascii ''maja'', ascii ''05''), (ascii ''czerwca'', ascii ''06''),
      (ascii ''lipca'', ascii ''07''), (ascii ''sierpnia'', ascii ''08''),
      (ascii ''wrze'' @ s_acute # ascii ''nia'', ascii ''09''),
      (ascii ''pa'' @ z_acute # ascii ''dziernika'', ascii ''10''),
      (ascii ''listopada'', ascii ''11''), (ascii ''grudnia'', ascii ''12'')]"

text \<open>
  The body of the \<open>try\<close> block of \<open>convert_to_iso\<close>. Unpacking into three names raises
  \<open>ValueError\<close> unless \<open>split()\<close> gave exactly three tokens, and the dictionary lookup
  raises \<open>KeyError\<close> on a word that is no month.
\<close>

definition convert_try :: "pystr \<Rightarrow> error + pystr" where
  "convert_try date_str =
     (if py_strip date_str = [] then Inr brak_daty
      else case py_split (py_strip (py_replace opublikowana [] date_str)) of
             [day, month_polish, year] \<Rightarrow>
               (case polish_months month_polish of
                  None \<Rightarrow> Inl (KeyError month_polish)
                | Some month \<Rightarrow> Inr (year @ ascii ''-'' @ month @ ascii ''-'' @ zfill 2 day))
           | _ \<Rightarrow> Inl ValueError)"

text \<open>\<open>except Exception: return "Brak daty"\<close> catches whatever the body raised.\<close>

definition convert_to_iso :: "pystr \<Rightarrow> pystr" where
  "convert_to_iso date_str =
     (case convert_try date_str of Inl e \<Rightarrow> brak_daty | Inr r \<Rightarrow> r)"

definition salary_suffix :: pystr where
  "salary_suffix = ascii '' z'' @ l_stroke # ascii '' / mies. (zal. od umowy)''"

definition clean_salary :: "pystr \<Rightarrow> pystr" where
  "clean_salary salary = py_strip (py_replace salary_suffix [] salary)"

definition brak_wynagrodzenia :: pystr where
  "brak_wynagrodzenia = ascii ''Brak wynagrodzenia''"

section \<open>PracujPlScraper: one listing block\<close>

text \<open>
  The markup library is outside the program. What \<open>find\<close> and \<open>find_all\<close> return for
  one listing block is the input here: an element is the list of the text nodes below it,
  in document order, with its attributes.
\<close>

record tag =
  strings :: "pystr list"
  attrs :: "(pystr \<times> pystr) list"

text \<open>
  \<open>tag.get_text()\<close> joins the text nodes; \<open>tag.get_text(strip=True)\<close> strips each node
  first, leaves out the ones that become empty, and joins the rest.
\<close>

definition get_text :: "tag \<Rightarrow> pystr" where
  "get_text t = concat (strings t)"

definition get_text_strip :: "tag \<Rightarrow> pystr" where
  "get_text_strip t = concat (filter (\<lambda>x. x \<noteq> []) (map py_strip (strings t)))"

record offer =
  title_tag :: "tag option"
  company_tag :: "tag option"
  date_tag :: "tag option"
  salary_tag :: "tag option"
  tech_tags :: "tag list"
  link_tag :: "tag option"

text \<open>A value of \<open>job_data\<close> is a string or a list of strings; a dict keeps its keys in
  insertion order.\<close>

datatype pyval = Str pystr | StrList "pystr list"

type_synonym dict = "(pystr \<times> pyval) list"

definition k_tytul :: pystr where "k_tytul = ascii ''Tytu'' @ [l_stroke]"
definition k_firma :: pystr where "k_firma = ascii ''Firma''"
definition k_data :: pystr where "k_data = ascii ''Data_opublikowania''"
definition k_wynagrodzenie :: pystr where "k_wynagrodzenie = ascii ''Wynagrodzenie''"
definition k_technologie :: pystr where "k_technologie = ascii ''Technologie''"
definition k_link :: pystr where "k_link = ascii ''Link''"

definition brak_tytulu :: pystr where
  "brak_tytulu = ascii ''Brak tytu'' @ l_stroke # ascii ''u''"

definition brak_nazwy_firmy :: pystr where
  "brak_nazwy_firmy = ascii ''Brak nazwy firmy''"

definition brak_technologii :: pystr where
  "brak_technologii = ascii ''Brak technologii''"

definition brak_linku :: pystr where
  "brak_linku = ascii ''Brak linku''"

text \<open>The six entries of the dict literal, in the order they are written and evaluated.\<close>

definition tytul_of :: "offer \<Rightarrow> pyval" where
  "tytul_of b = Str (case title_tag b of Some t \<Rightarrow> get_text_strip t | None \<Rightarrow> brak_tytulu)"

definition firma_of :: "offer \<Rightarrow> pyval" where
  "firma_of b =
     Str (case company_tag b of Some t \<Rightarrow> get_text_strip t | None \<Rightarrow> brak_nazwy_firmy)"

definition data_opublikowania_of :: "offer \<Rightarrow> pyval" where
  "data_opublikowania_of b =
     Str (convert_to_iso (case date_tag b of Some t \<Rightarrow> get_text t | None \<Rightarrow> []))"

definition wynagrodzenie_of :: "offer \<Rightarrow> pyval" where
  "wynagrodzenie_of b =
     Str (clean_salary (case salary_tag b of Some t \<Rightarrow> get_text t
                                            | None \<Rightarrow> brak_wynagrodzenia))"

definition technologie_of :: "offer \<Rightarrow> pyval" where
  "technologie_of b =
     (if tech_tags b \<noteq> [] then StrList (map get_text_strip (tech_tags b))
      else Str brak_technologii)"

text \<open>\<open>link_tag['href']\<close> raises \<open>KeyError\<close> when the anchor has no such attribute.\<close>

definition link_of :: "offer \<Rightarrow> error + pyval" where
  "link_of b =
     (case link_tag b of
        None \<Rightarrow> Inr (Str brak_linku)
      | Some t \<Rightarrow> (case map_of (attrs t) (ascii ''href'') of
                     None \<Rightarrow> Inl (KeyError (ascii ''href''))
                   | Some h \<Rightarrow> Inr (Str h)))"

definition job_data :: "offer \<Rightarrow> error + dict" where
  "job_data b =
     (case link_of b of
        Inl e \<Rightarrow> Inl e
      | Inr link \<Rightarrow>
          Inr [(k_tytul, tytul_of b), (k_firma, firma_of b),
               (k_data, data_opublikowania_of b), (k_wynagrodzenie, wynagrodzenie_of b),
               (k_technologie, technologie_of b), (k_link, link)])"

text \<open>The loop over the blocks: an exception in one block leaves \<open>parse_page\<close>.\<close>

fun parse_offers :: "offer list \<Rightarrow> error + dict list" where
  "parse_offers [] = Inr []"
| "parse_offers (b # bs) =
     (case job_data b of
        Inl e \<Rightarrow> Inl e
      | Inr j \<Rightarrow> (case parse_offers bs of Inl e \<Rightarrow> Inl e | Inr js \<Rightarrow> Inr (j # js)))"

text \<open>\<open>soup\<close> stands for \<open>BeautifulSoup(html, 'html.parser').find_all(...)\<close> followed by
  the six lookups in each block it found.\<close>

definition parse_page :: "(pystr \<Rightarrow> offer list) \<Rightarrow> pystr \<Rightarrow> error + dict list" where
  "parse_page soup html = parse_offers (soup html)"

section \<open>BaseScraper\<close>

record scraper =
  urls :: "pystr list"
  data :: "dict list"
  max_workers :: int

text \<open>\<open>__init__\<close>: a single URL that is not a list is wrapped in one.\<close>

datatype urls_arg = UrlList "pystr list" | OneUrl pystr

definition new_scraper :: "urls_arg \<Rightarrow> int \<Rightarrow> scraper" where
  "new_scraper arg workers =
     \<lparr>urls = (case arg of UrlList us \<Rightarrow> us | OneUrl u \<Rightarrow> [u]), data = [],
      max_workers = workers\<rparr>"

subsection \<open>save_to_csv\<close>

text \<open>
  A file is the list of the rows handed to the CSV writer, a row the list of its cells
  (the quoting and the line ends of the CSV text are the library's). After an \<open>IOError\<close>
  in a write or in the close a file is \<open>Torn\<close>: it was created or truncated and holds some
  part of the text of the rows handed over before.

  The disk says for each path what \<open>open(path, mode='w')\<close> raises, if anything
  (\<open>open_error\<close>, the text of the \<open>IOError\<close>), and, for each number \<open>n\<close> of rows handed
  over, whether with \<open>n\<close> rows in the next write or the close raises an \<open>IOError\<close>
  (\<open>write_error\<close>, its text).
\<close>

type_synonym csv_row = "pyval list"

datatype csv_file = Written "csv_row list" | Torn "csv_row list"

record disk =
  files :: "pystr \<rightharpoonup> csv_file"
  open_error :: "pystr \<Rightarrow> pystr option"
  write_error :: "pystr \<Rightarrow> nat \<Rightarrow> pystr option"

text \<open>
  \<open>DictWriter._dict_to_list\<close>: a key that is no field name raises \<open>ValueError\<close>
  (\<open>extrasaction\<close> is \<open>'raise'\<close>), a missing one is written as the empty string.
\<close>

definition cells :: "pystr list \<Rightarrow> dict \<Rightarrow> csv_row" where
  "cells fieldnames row =
     map (\<lambda>k. case map_of row k of Some v \<Rightarrow> v | None \<Rightarrow> Str []) fieldnames"

definition dict_to_list :: "pystr list \<Rightarrow> dict \<Rightarrow> error + csv_row" where
  "dict_to_list fieldnames row =
     (if list_ex (\<lambda>k. k \<notin> set fieldnames) (map fst row) then Inl ValueError
      else Inr (cells fieldnames row))"

text \<open>
  The file is opened with \<open>encoding='utf-8'\<close>: writing a string with a surrogate code
  point raises \<open>UnicodeEncodeError\<close>. A list is written as its \<open>repr\<close>, which escapes
  such code points.
\<close>

definition encodable :: "pystr \<Rightarrow> bool" where
  "encodable s = list_all (\<lambda>c. c < 55296 \<or> 57343 < c) s"

fun cell_encodable :: "pyval \<Rightarrow> bool" where
  "cell_encodable (Str s) = encodable s"
| "cell_encodable (StrList l) = True"

text \<open>
  The body of the \<open>with\<close> block and the close on leaving it. \<open>pending\<close> are the rows still
  to come, each one the result of \<open>_dict_to_list\<close> (\<open>writerows\<close> maps it lazily over the
  records); \<open>written\<close> are the rows handed over so far. The block ends with the file closed
  after the last row, with an \<open>IOError\<close> from a write or from the close, or with another
  exception, after which the close writes out what was handed over.
\<close>

datatype write_end = Closed | IOFailed pystr | Raised error

fun write_from ::
  "(nat \<Rightarrow> pystr option) \<Rightarrow> csv_row list \<Rightarrow> (error + csv_row) list \<Rightarrow> write_end \<times> csv_file" where
  "write_from werr written [] =
     (case werr (length written) of
        Some msg \<Rightarrow> (IOFailed msg, Torn written)
      | None \<Rightarrow> (Closed, Written written))"
| "write_from werr written (p # pending) =
     (case werr (length written) of
        Some msg \<Rightarrow> (IOFailed msg, Torn written)
      | None \<Rightarrow>
          (case p of
             Inl e \<Rightarrow> (Raised e, Written written)
           | Inr line \<Rightarrow>
               if list_all cell_encodable line then write_from werr (written @ [line]) pending
               else (Raised UnicodeEncodeError, Written written)))"

text \<open>
  The result is what the caller sees (\<open>Inr ()\<close> is the return of \<open>None\<close>, \<open>Inl e\<close> an
  exception that leaves the function), the disk afterwards, and the lines logged. Opening
  for writing creates or truncates the file. The \<open>try\<close> block holds the open, the header,
  the rows and the close, and only \<open>IOError\<close> is caught.
\<close>

definition save_to_csv ::
  "'a scraper_scheme \<Rightarrow> pystr \<Rightarrow> disk \<Rightarrow> (error + unit) \<times> disk \<times> log_line list" where
  "save_to_csv self filename d =
     (case data self of
        [] \<Rightarrow> (Inr (), d, [(WARNING, ascii ''No data to save'')])
      | first # _ \<Rightarrow>
          (case open_error d filename of
             Some msg \<Rightarrow> (Inr (), d, [(ERROR, ascii ''Error saving to CSV: '' @ msg)])
           | None \<Rightarrow>
               (let fieldnames = map fst first;
                    header = map Str fieldnames
                in case write_from (write_error d filename) []
                          (Inr header # map (dict_to_list fieldnames) (data self)) of
                     (Closed, f) \<Rightarrow>
                       (Inr (), d\<lparr>files := (files d)(filename \<mapsto> f)\<rparr>,
                        [(INFO, ascii ''Data saved to '' @ filename)])
                   | (IOFailed msg, f) \<Rightarrow>
                       (Inr (), d\<lparr>files := (files d)(filename \<mapsto> f)\<rparr>,
                        [(ERROR, ascii ''Error saving to CSV: '' @ msg)])
                   | (Raised e, f) \<Rightarrow>
                       (Inl e, d\<lparr>files := (files d)(filename \<mapsto> f)\<rparr>, []))))"

subsection \<open>fetch_page\<close>

text \<open>
  The browser is outside the program. What one browser session does is the input:
  \<open>get_driver()\<close> raises (\<open>NoDriver\<close>); or a driver exists and loading, scrolling or
  reading the page raises (\<open>Crashed\<close>); or \<open>page_source\<close> is returned (\<open>Loaded\<close>). The
  exception \<open>e\<close> of the first two is caught, and is given by its text \<open>str(e)\<close>. With a
  driver, the \<open>finally\<close> clause calls \<open>driver.quit()\<close>, whose own exception, if any, is
  the second component and replaces the pending \<open>return\<close>.
\<close>

datatype driver_run =
    NoDriver pystr
  | Crashed pystr "error option"
  | Loaded pystr "error option"

definition fetch_error_line :: "pystr \<Rightarrow> pystr \<Rightarrow> log_line" where
  "fetch_error_line url str_e =
     (ERROR, ascii ''Error fetching URL '' @ url @ ascii '': '' @ str_e)"

fun fetch_page :: "driver_run \<Rightarrow> pystr \<Rightarrow> (error + pystr option) \<times> log_line list" where
  "fetch_page (NoDriver str_e) url = (Inr None, [fetch_error_line url str_e])"
| "fetch_page (Crashed str_e quit) url =
     ((case quit of None \<Rightarrow> Inr None | Some q \<Rightarrow> Inl q), [fetch_error_line url str_e])"
| "fetch_page (Loaded page_source quit) url =
     ((case quit of None \<Rightarrow> Inr (Some page_source) | Some q \<Rightarrow> Inl q), [])"

subsection \<open>process_url\<close>

text \<open>
  \<open>parse\<close> is the \<open>parse_page\<close> of the subclass. \<open>if html:\<close> is false for \<open>None\<close> and
  for the empty string. The result is what the coroutine returns or raises, the scraper
  with its \<open>data\<close> extended, and the lines logged.
\<close>

definition process_url ::
  "(pystr \<Rightarrow> error + dict list) \<Rightarrow> driver_run \<Rightarrow> pystr \<Rightarrow> 'a scraper_scheme \<Rightarrow>
     (error + unit) \<times> 'a scraper_scheme \<times> log_line list" where
  "process_url parse run url self =
     (case fetch_page run url of
        (Inl e, lines) \<Rightarrow> (Inl e, self, lines)
      | (Inr None, lines) \<Rightarrow> (Inr (), self, lines)
      | (Inr (Some html), lines) \<Rightarrow>
          (if html = [] then (Inr (), self, lines)
           else case parse html of
                  Inl e \<Rightarrow> (Inl e, self, lines)
                | Inr page_data \<Rightarrow>
                    (Inr (), self\<lparr>data := data self @ page_data\<rparr>,
                     lines @ [(INFO, ascii ''Processed '' @ url @ ascii '', found '' @
                                     str_nat (length page_data) @ ascii '' listings'')])))"

subsection \<open>process_urls\<close>

text \<open>
  The event loop runs one task at a time; the tasks interleave at their \<open>await\<close>s. A task
  is its position in \<open>self.urls\<close> with its URL. It waits for the semaphore (\<open>waiting\<close>, a
  queue: tasks start in the order they were created and the semaphore wakes its waiters in
  that order), then holds a permit while its \<open>fetch_page\<close> runs on the worker thread
  (\<open>active\<close>), then is done (\<open>finished\<close>). \<open>raised\<close> is the exception that left
  \<open>process_urls\<close>: \<open>gather\<close> passes on the first exception of a task at once, and the run
  is over.
\<close>

type_synonym task = "nat \<times> pystr"

record coord = scraper +
  console :: "log_line list"
  sem_value :: int
  waiting :: "task list"
  active :: "task list"
  finished :: "task list"
  raised :: "error option"

text \<open>
  \<open>asyncio.Semaphore(n)\<close> raises \<open>ValueError\<close> for a negative \<open>n\<close>, before any task is
  created; otherwise one task per URL is created, in the order of the list.
\<close>

definition created_tasks :: "scraper \<Rightarrow> task list" where
  "created_tasks self =
     (if max_workers self < 0 then [] else zip [0..<length (urls self)] (urls self))"

definition process_urls_start :: "scraper \<Rightarrow> coord" where
  "process_urls_start self =
     \<lparr>urls = urls self, data = data self, max_workers = max_workers self,
      console = [], sem_value = max_workers self,
      waiting = created_tasks self, active = [], finished = [],
      raised = (if max_workers self < 0 then Some ValueError else None)\<rparr>"

text \<open>
  Two kinds of event. \<open>Acquire\<close>: the first waiting task enters \<open>async with sem\<close>, which
  needs a positive value and takes one permit, and hands \<open>fetch_page\<close> to its executor.
  \<open>Complete i\<close>: the fetch of the active task \<open>i\<close> is over; the task resumes, runs the rest
  of \<open>process_url\<close> without another \<open>await\<close>, and leaves the \<open>async with\<close>, which gives
  the permit back whether or not the body raised. \<open>browser i\<close> is the browser session of
  task \<open>i\<close>.
\<close>

datatype event = Acquire | Complete nat

fun step ::
  "(pystr \<Rightarrow> error + dict list) \<Rightarrow> (nat \<Rightarrow> driver_run) \<Rightarrow> event \<Rightarrow> coord \<Rightarrow> coord option" where
  "step parse browser Acquire s =
     (if raised s \<noteq> None \<or> sem_value s \<le> 0 then None
      else case waiting s of
             [] \<Rightarrow> None
           | t # ts \<Rightarrow>
               Some (s\<lparr>sem_value := sem_value s - 1, waiting := ts, active := active s @ [t]\<rparr>))"
| "step parse browser (Complete i) s =
     (if raised s \<noteq> None then None
      else case find (\<lambda>t. fst t = i) (active s) of
             None \<Rightarrow> None
           | Some t \<Rightarrow>
               (case process_url parse (browser i) (snd t) s of
                  (res, s', lines) \<Rightarrow>
                    Some (s'\<lparr>console := console s' @ lines,
                             sem_value := sem_value s' + 1,
                             active := remove1 t (active s'),
                             finished := finished s' @ [t],
                             raised := (case res of Inl e \<Rightarrow> Some e | Inr u \<Rightarrow> None)\<rparr>)))"

fun exec ::
  "(pystr \<Rightarrow> error + dict list) \<Rightarrow> (nat \<Rightarrow> driver_run) \<Rightarrow> event list \<Rightarrow> coord \<Rightarrow>
     coord option" where
  "exec parse browser [] s = Some s"
| "exec parse browser (e # es) s =
     (case step parse browser e s of None \<Rightarrow> None | Some s' \<Rightarrow> exec parse browser es s')"

text \<open>
  \<open>await asyncio.gather(*tasks)\<close> returns when every task is done and none raised; the run
  is over when it returns or an exception has left it.
\<close>

definition returned :: "coord \<Rightarrow> bool" where
  "returned s \<longleftrightarrow> raised s = None \<and> length (finished s) = length (urls s)"

definition run_over :: "coord \<Rightarrow> bool" where
  "run_over s \<longleftrightarrow> raised s \<noteq> None \<or> length (finished s) = length (urls s)"

text \<open>What one task adds to \<open>self.data\<close>: the records of its page if the page was fetched,
  is not empty and was parsed, nothing otherwise.\<close>

definition extraction ::
  "(pystr \<Rightarrow> error + dict list) \<Rightarrow> (nat \<Rightarrow> driver_run) \<Rightarrow> task \<Rightarrow> dict list" where
  "extraction parse browser t =
     (case fst (fetch_page (browser (fst t)) (snd t)) of
        Inr (Some html) \<Rightarrow>
          (if html = [] then [] else case parse html of Inr page_data \<Rightarrow> page_data | Inl e \<Rightarrow> [])
      | _ \<Rightarrow> [])"

subsection \<open>main\<close>

text \<open>
  After \<open>process_urls\<close> has returned, \<open>main\<close> saves to a fixed path and ends; the exit
  status of the process is 0 unless an exception left \<open>main\<close>.
\<close>

definition job_listings_csv :: pystr where
  "job_listings_csv = ascii ''job_listings.csv''"

definition exit_status :: "'a scraper_scheme \<Rightarrow> disk \<Rightarrow> int" where
  "exit_status self d =
     (case fst (save_to_csv self job_listings_csv d) of Inr u \<Rightarrow> 0 | Inl e \<Rightarrow> 1)"

subsection \<open>The invariant of a run\<close>

text \<open>
  What holds after \<open>n\<close> events of a run started on \<open>self\<close>: every created task is in
  exactly one of the three stages, the permits out are the active tasks, \<open>self.data\<close> is
  what the finished tasks added, in the order they finished, and the log holds what their
  fetches logged.
\<close>

definition coord_inv ::
  "(pystr \<Rightarrow> error + dict list) \<Rightarrow> (nat \<Rightarrow> driver_run) \<Rightarrow> scraper \<Rightarrow> nat \<Rightarrow> coord \<Rightarrow> bool" where
  "coord_inv parse browser self n s \<longleftrightarrow>
     urls s = urls self \<and> max_workers s = max_workers self \<and>
     mset (waiting s) + mset (active s) + mset (finished s) = mset (created_tasks self) \<and>
     (0 \<le> max_workers self \<longrightarrow>
        0 \<le> sem_value s \<and> sem_value s + int (length (active s)) = max_workers self) \<and>
     (max_workers self < 0 \<longrightarrow> raised s \<noteq> None) \<and>
     data s = data self @ concat (map (extraction parse browser) (finished s)) \<and>
     (\<forall>t\<in>set (finished s). set (snd (fetch_page (browser (fst t)) (snd t))) \<subseteq> set (console s)) \<and>
     n + 2 * length (waiting s) + length (active s) = 2 * length (created_tasks self)"

text \<open>A task whose page fetch returned the failure signal \<open>None\<close>.\<close>

definition render_failed :: "(nat \<Rightarrow> driver_run) \<Rightarrow> task \<Rightarrow> bool" where
  "render_failed browser t \<longleftrightarrow> fst (fetch_page (browser (fst t)) (snd t)) = Inr None"

subsection \<open>An example run\<close>

text \<open>
  Three URLs and two workers. The browser of the first task times out; the other two pages
  load, and the parser used here makes one record of a page.
\<close>

definition ex_scraper :: scraper where
  "ex_scraper = new_scraper (UrlList [ascii ''a'', ascii ''b'', ascii ''c'']) 2"

definition ex_browser :: "nat \<Rightarrow> driver_run" where
  "ex_browser i =
     (if i = 0 then Crashed (ascii ''timeout'') None else Loaded [60 + i] None)"

definition ex_parse :: "pystr \<Rightarrow> error + dict list" where
  "ex_parse html = Inr [[(k_link, Str html)]]"

text \<open>
  Two listing blocks, one with no technology tag and one with two; two records with
  their keys in different orders; and a disk whose opens fail or not and whose writes fail
  or not.
\<close>

definition ex_plain :: offer where
  "ex_plain =
     \<lparr>title_tag = None, company_tag = None, date_tag = None, salary_tag = None,
      tech_tags = [], link_tag = None\<rparr>"

definition ex_tech :: offer where
  "ex_tech =
     ex_plain\<lparr>tech_tags := [\<lparr>strings = [ascii '' Python ''], attrs = []\<rparr>,
                            \<lparr>strings = [ascii ''SQL'', ascii '' ''], attrs = []\<rparr>]\<rparr>"

definition ex_saved :: scraper where
  "ex_saved =
     \<lparr>urls = [], data = [[(k_firma, Str (ascii ''A'')), (k_link, Str (ascii ''x''))],
                         [(k_link, Str (ascii ''y'')), (k_firma, Str (ascii ''B''))]],
      max_workers = 3\<rparr>"

definition ex_disk :: "pystr option \<Rightarrow> (nat \<Rightarrow> pystr option) \<Rightarrow> disk" where
  "ex_disk at_open at_write =
     \<lparr>files = Map.empty, open_error = (\<lambda>path. at_open), write_error = (\<lambda>path. at_write)\<rparr>"

section \<open>Properties of the date and salary functions\<close>

lemmas eval_defs =
  convert_to_iso_def convert_try_def clean_salary_def py_strip_def py_split_def zfill_def
  ascii_def isspace_def opublikowana_def polish_months_def brak_daty_def salary_suffix_def
  brak_wynagrodzenia_def l_stroke_def s_acute_def z_acute_def





lemma convert_blank: "py_strip s = [] \<Longrightarrow> convert_to_iso s = brak_daty"
  by (simp add: convert_to_iso_def convert_try_def)

lemma convert_count:
  "length (py_split (py_strip (py_replace opublikowana [] s))) \<noteq> 3
   \<Longrightarrow> convert_to_iso s = brak_daty"
  by (auto simp add: convert_to_iso_def convert_try_def split: list.splits)

lemma convert_month:
  "py_split (py_strip (py_replace opublikowana [] s)) = [d, m, y] \<Longrightarrow> polish_months m = None
   \<Longrightarrow> convert_to_iso s = brak_daty"
  by (auto simp add: convert_to_iso_def convert_try_def split: list.splits)

text \<open>
  C4, as the code has it. \<open>clean_salary\<close> maps the text with the suffix to \<open>8000\<close> and the
  empty string to the empty string. The sentinel \<open>Brak wynagrodzenia\<close> is chosen by
  \<open>parse_page\<close>, for a block with no salary element, before \<open>clean_salary\<close> is applied,
  and \<open>clean_salary\<close> returns the sentinel as it is.
\<close>

theorem clean_salary_and_sentinel:
  "clean_salary (ascii ''8000 z'' @ l_stroke # ascii '' / mies. (zal. od umowy)'') = ascii ''8000''
   \<and> clean_salary [] = []
   \<and> wynagrodzenie_of (b\<lparr>salary_tag := None\<rparr>) = Str (ascii ''Brak wynagrodzenia'')
   \<and> wynagrodzenie_of (b\<lparr>salary_tag := None\<rparr>) = Str (clean_salary brak_wynagrodzenia)"
  by (simp add: wynagrodzenie_of_def eval_defs)

text \<open>
  C4 as stated fails: \<open>clean_salary\<close> applied to the empty string returns the empty string,
  not the sentinel for an absent salary.
\<close>

theorem clean_salary_empty_not_sentinel:
  "clean_salary [] \<noteq> brak_wynagrodzenia \<and> clean_salary [] \<noteq> ascii ''no salary''"
  by (simp add: eval_defs)

text \<open>
  C5. \<open>convert_to_iso\<close> maps \<open>12 stycznia 2024\<close> to \<open>2024-01-12\<close>, and both the empty
  string and \<open>5 invalidmonth 2023\<close> to the date sentinel \<open>Brak daty\<close>.
\<close>

theorem convert_to_iso_examples:
  "convert_to_iso (ascii ''12 stycznia 2024'') = ascii ''2024-01-12''
   \<and> convert_to_iso [] = ascii ''Brak daty''
   \<and> convert_to_iso (ascii ''5 invalidmonth 2023'') = ascii ''Brak daty''
   \<and> brak_daty = ascii ''Brak daty''"
  by (simp add: eval_defs)

text \<open>
  C6. \<open>convert_to_iso\<close> returns a string on every input: whatever its \<open>try\<close> block raises
  is turned into the date sentinel. In particular a blank input, a number of tokens other
  than three after the label is removed, and a middle token that is no month name all give
  the sentinel.
\<close>

theorem convert_to_iso_never_raises:
  "(convert_try s = Inl e \<longrightarrow> convert_to_iso s = brak_daty)
   \<and> (py_strip s = [] \<longrightarrow> convert_to_iso s = brak_daty)
   \<and> (length (py_split (py_strip (py_replace opublikowana [] s))) \<noteq> 3
        \<longrightarrow> convert_to_iso s = brak_daty)
   \<and> (py_split (py_strip (py_replace opublikowana [] s)) = [d, m, y] \<and> polish_months m = None
        \<longrightarrow> convert_to_iso s = brak_daty)"
  using convert_blank [of s] convert_count [of s] convert_month [of s d m y]
  by (simp add: convert_to_iso_def)

theorem convert_to_iso_never_raises_witness:
  "convert_try (ascii ''12 stycznia'') = Inl ValueError
   \<and> convert_to_iso (ascii ''12 stycznia'') = brak_daty
   \<and> py_strip (ascii ''  '') = []
   \<and> convert_to_iso (ascii ''  '') = brak_daty
   \<and> length (py_split (py_strip (py_replace opublikowana [] (ascii ''Opublikowana: 1 maja'')))) \<noteq> 3
   \<and> convert_to_iso (ascii ''Opublikowana: 1 maja'') = brak_daty
   \<and> py_split (py_strip (py_replace opublikowana [] (ascii ''1 may 2020'')))
       = [ascii ''1'', ascii ''may'', ascii ''2020'']
   \<and> polish_months (ascii ''may'') = None
   \<and> convert_to_iso (ascii ''1 may 2020'') = brak_daty"
proof -
  have a: "convert_try (ascii ''12 stycznia'') = Inl ValueError"
    by (simp add: eval_defs)
  have b: "py_strip (ascii ''  '') = []"
    by (simp add: eval_defs)
  have c: "length (py_split (py_strip (py_replace opublikowana [] (ascii ''Opublikowana: 1 maja'')))) \<noteq> 3"
    by (simp add: eval_defs)
  have d: "py_split (py_strip (py_replace opublikowana [] (ascii ''1 may 2020'')))
       = [ascii ''1'', ascii ''may'', ascii ''2020'']"
    by (simp add: eval_defs)
  have e: "polish_months (ascii ''may'') = None"
    by (simp add: eval_defs)
  show ?thesis
    using a b c d e
      convert_to_iso_never_raises [of "ascii ''12 stycznia''" ValueError "[]" "[]" "[]"]
      convert_to_iso_never_raises [of "ascii ''  ''" ValueError "[]" "[]" "[]"]
      convert_to_iso_never_raises [of "ascii ''Opublikowana: 1 maja''" ValueError "[]" "[]" "[]"]
      convert_to_iso_never_raises [of "ascii ''1 may 2020''" ValueError "ascii ''1''" "ascii ''may''"
        "ascii ''2020''"]
    by blast
qed






section \<open>Properties of the coordinator\<close>

subsection \<open>One event\<close>

lemma process_url_effect:
  assumes "process_url parse (browser i) u s = (res, s', lines)"
  shows "s' = s\<lparr>data := data s @ extraction parse browser (i, u)\<rparr>"
    and "set (snd (fetch_page (browser i) u)) \<subseteq> set lines"
  using assms
  by (auto simp add: process_url_def extraction_def
      split: prod.splits sum.splits option.splits if_splits)

lemma process_url_failed:
  "fst (fetch_page run u) = Inr None \<Longrightarrow> fst (process_url parse run u s) = Inr ()"
  by (auto simp add: process_url_def split: prod.splits sum.splits option.splits)

lemma find_task:
  "find (\<lambda>t. fst t = i) ts = Some t \<Longrightarrow> t \<in> set ts \<and> fst t = i"
  by (induction ts) (auto split: if_splits)

lemma step_Acquire:
  assumes "step parse browser Acquire s = Some s'"
  obtains t ts where "waiting s = t # ts" and "raised s = None" and "0 < sem_value s"
    and "s' = s\<lparr>sem_value := sem_value s - 1, waiting := ts, active := active s @ [t]\<rparr>"
proof -
  have r: "raised s = None" "0 < sem_value s"
    using assms by (auto split: if_splits)
  obtain t ts where w: "waiting s = t # ts"
    using assms r by (cases "waiting s") simp_all
  have "s' = s\<lparr>sem_value := sem_value s - 1, waiting := ts, active := active s @ [t]\<rparr>"
    using assms r w by simp
  then show thesis by (rule that [OF w r])
qed

lemma step_Complete_raised:
  assumes "step parse browser (Complete i) s = Some s'"
  shows "raised s = None"
  using assms by (cases "raised s") simp_all

lemma step_Complete_found:
  assumes "step parse browser (Complete i) s = Some s'"
  shows "\<exists>t. find (\<lambda>t. fst t = i) (active s) = Some t"
  using assms step_Complete_raised [OF assms]
  by (cases "find (\<lambda>t. fst t = i) (active s)") simp_all

lemma step_Complete_unfold:
  assumes "step parse browser (Complete i) s = Some s'"
    and "find (\<lambda>t. fst t = i) (active s) = Some t"
    and "process_url parse (browser i) (snd t) s = (res, s1, lines)"
  shows "s' = s1\<lparr>console := console s1 @ lines, sem_value := sem_value s1 + 1,
             active := remove1 t (active s1), finished := finished s1 @ [t],
             raised := (case res of Inl e \<Rightarrow> Some e | Inr u \<Rightarrow> None)\<rparr>"
  using assms step_Complete_raised [OF assms(1)] by simp

lemma step_Complete:
  assumes "step parse browser (Complete i) s = Some s'"
  obtains t lines where "t \<in> set (active s)" and "fst t = i" and "raised s = None"
    and "set (snd (fetch_page (browser i) (snd t))) \<subseteq> set lines"
    and "s' = s\<lparr>data := data s @ extraction parse browser t,
                  console := console s @ lines,
                  sem_value := sem_value s + 1,
                  active := remove1 t (active s),
                  finished := finished s @ [t],
                  raised := (case fst (process_url parse (browser i) (snd t) s) of
                               Inl e \<Rightarrow> Some e | Inr u \<Rightarrow> None)\<rparr>"
proof -
  have r: "raised s = None" using assms by (rule step_Complete_raised)
  obtain t where f: "find (\<lambda>t. fst t = i) (active s) = Some t"
    using step_Complete_found [OF assms] by blast
  obtain res s1 lines where p: "process_url parse (browser i) (snd t) s = (res, s1, lines)"
    by (cases "process_url parse (browser i) (snd t) s")
  have t: "t \<in> set (active s)" "fst t = i" using find_task [OF f] by simp_all
  have ti: "(i, snd t) = t" using t(2) by auto
  have s1: "s1 = s\<lparr>data := data s @ extraction parse browser t\<rparr>"
    using process_url_effect(1) [of parse browser i "snd t" s res s1 lines] p ti by simp
  have l: "set (snd (fetch_page (browser i) (snd t))) \<subseteq> set lines"
    using process_url_effect(2) [of parse browser i "snd t" s res s1 lines] p by simp
  have "s' = s1\<lparr>console := console s1 @ lines, sem_value := sem_value s1 + 1,
             active := remove1 t (active s1), finished := finished s1 @ [t],
             raised := (case res of Inl e \<Rightarrow> Some e | Inr u \<Rightarrow> None)\<rparr>"
    using step_Complete_unfold [OF assms f p] .
  then have "s' = s\<lparr>data := data s @ extraction parse browser t,
                  console := console s @ lines,
                  sem_value := sem_value s + 1,
                  active := remove1 t (active s),
                  finished := finished s @ [t],
                  raised := (case fst (process_url parse (browser i) (snd t) s) of
                               Inl e \<Rightarrow> Some e | Inr u \<Rightarrow> None)\<rparr>"
    unfolding s1 p by simp
  then show thesis by (rule that [OF t r l])
qed

subsection \<open>The invariant holds along every run\<close>

lemma inv_start: "coord_inv parse browser self 0 (process_urls_start self)"
  by (simp add: coord_inv_def process_urls_start_def created_tasks_def)

lemma inv_step:
  assumes i: "coord_inv parse browser self n s"
    and st: "step parse browser e s = Some s'"
  shows "coord_inv parse browser self (Suc n) s'"
proof (cases e)
  case Acquire
  then have "step parse browser Acquire s = Some s'" using st by simp
  then obtain t ts where w: "waiting s = t # ts" and r: "raised s = None" and v: "0 < sem_value s"
    and s': "s' = s\<lparr>sem_value := sem_value s - 1, waiting := ts, active := active s @ [t]\<rparr>"
    by (rule step_Acquire)
  show ?thesis using i w r v unfolding s' coord_inv_def by auto
next
  case (Complete j)
  then have "step parse browser (Complete j) s = Some s'" using st by simp
  then obtain t lines where t: "t \<in> set (active s)" and j: "fst t = j" and r: "raised s = None"
    and l: "set (snd (fetch_page (browser j) (snd t))) \<subseteq> set lines"
    and s': "s' = s\<lparr>data := data s @ extraction parse browser t,
                  console := console s @ lines,
                  sem_value := sem_value s + 1,
                  active := remove1 t (active s),
                  finished := finished s @ [t],
                  raised := (case fst (process_url parse (browser j) (snd t) s) of
                               Inl e \<Rightarrow> Some e | Inr u \<Rightarrow> None)\<rparr>"
    by (rule step_Complete)
  have k: "0 \<le> max_workers self" using i r by (auto simp add: coord_inv_def)
  have m: "mset (remove1 t (active s)) + {#t#} = mset (active s)" using t by simp
  have len: "length (remove1 t (active s)) + 1 = length (active s)"
    using t by (simp add: length_remove1) (metis Suc_pred length_pos_if_in_set)
  have im: "mset (waiting s) + mset (active s) + mset (finished s) = mset (created_tasks self)"
    using i by (simp add: coord_inv_def)
  have "mset (waiting s) + mset (remove1 t (active s)) + (mset (finished s) + {#t#})
      = mset (waiting s) + (mset (remove1 t (active s)) + {#t#}) + mset (finished s)"
    by (simp add: ac_simps)
  also have "\<dots> = mset (waiting s) + mset (active s) + mset (finished s)"
    by (simp only: m)
  finally have ms: "mset (waiting s) + mset (remove1 t (active s)) + (mset (finished s) + {#t#})
      = mset (created_tasks self)"
    using im by simp
  show ?thesis using i k l j len ms unfolding s' coord_inv_def
    by auto
qed

lemma inv_exec:
  "coord_inv parse browser self n s \<Longrightarrow> exec parse browser es s = Some s'
   \<Longrightarrow> coord_inv parse browser self (n + length es) s'"
proof (induction es arbitrary: n s)
  case Nil
  then show ?case by simp
next
  case (Cons e es)
  then obtain s1 where s1: "step parse browser e s = Some s1"
    and r: "exec parse browser es s1 = Some s'"
    by (auto split: option.splits)
  have "coord_inv parse browser self (Suc n) s1" using Cons.prems(1) s1 by (rule inv_step)
  then have "coord_inv parse browser self (Suc n + length es) s'" using r by (rule Cons.IH)
  then show ?case by simp
qed

lemma inv_run:
  "exec parse browser es (process_urls_start self) = Some s
   \<Longrightarrow> coord_inv parse browser self (length es) s"
  using inv_exec [where n = 0 and es = es, OF inv_start] by simp

subsection \<open>Consequences of the invariant\<close>

lemma inv_sizes:
  assumes "coord_inv parse browser self n s"
  shows "length (waiting s) + length (active s) + length (finished s)
         = length (created_tasks self)"
proof -
  have "size (mset (waiting s) + mset (active s) + mset (finished s))
        = size (mset (created_tasks self))"
    using assms by (simp add: coord_inv_def)
  then show ?thesis by simp
qed

lemma created_tasks_length:
  "0 \<le> max_workers self \<Longrightarrow> length (created_tasks self) = length (urls self)"
  by (simp add: created_tasks_def)

lemma created_tasks_nth:
  assumes "t \<in> set (created_tasks self)"
  shows "fst t < length (urls self) \<and> snd t = urls self ! fst t"
proof -
  have "t \<in> set (zip [0..<length (urls self)] (urls self))"
    using assms by (simp add: created_tasks_def split: if_splits)
  then obtain j where "j < length (urls self)" "t = ([0..<length (urls self)] ! j, urls self ! j)"
    by (auto simp add: in_set_zip)
  then show ?thesis by simp
qed

lemma inv_active_created:
  assumes "coord_inv parse browser self n s" and "t \<in> set (active s)"
  shows "t \<in> set (created_tasks self)"
proof -
  have "t \<in># mset (waiting s) + mset (active s) + mset (finished s)"
    using assms(2) by simp
  then have "t \<in># mset (created_tasks self)"
    using assms(1) by (simp only: coord_inv_def)
  then show ?thesis by simp
qed

lemma mset_concat_map:
  "mset (concat (map f xs)) = (\<Sum>x\<in>#mset xs. mset (f x))"
  by (induction xs) simp_all

lemma inv_returned:
  assumes i: "coord_inv parse browser self n s" and r: "returned s"
  shows "waiting s = []" and "active s = []"
    and "mset (finished s) = mset (created_tasks self)"
    and "created_tasks self = zip [0..<length (urls s)] (urls s)"
proof -
  have k: "0 \<le> max_workers self"
    using i r by (auto simp add: coord_inv_def returned_def)
  have "length (finished s) = length (created_tasks self)"
    using i r k by (simp add: returned_def created_tasks_length coord_inv_def)
  then have "length (waiting s) + length (active s) = 0"
    using inv_sizes [OF i] by simp
  then show w: "waiting s = []" and a: "active s = []" by simp_all
  show "mset (finished s) = mset (created_tasks self)"
    using i w a by (simp add: coord_inv_def)
  show "created_tasks self = zip [0..<length (urls s)] (urls s)"
    using i k by (simp add: coord_inv_def created_tasks_def)
qed

text \<open>\<open>None\<close> is returned only from the \<open>except\<close> clause, which has logged the exception.\<close>

lemma fetch_page_None:
  assumes "fst (fetch_page run u) = Inr None"
  shows "\<exists>str_e. (run = NoDriver str_e \<or> run = Crashed str_e None)
           \<and> snd (fetch_page run u) = [fetch_error_line u str_e]"
proof (cases run)
  case (NoDriver x)
  then show ?thesis by simp
next
  case (Crashed x q)
  then show ?thesis using assms by (cases q) simp_all
next
  case (Loaded x q)
  then show ?thesis using assms by (cases q) simp_all
qed

lemma extraction_failed: "render_failed browser t \<Longrightarrow> extraction parse browser t = []"
  by (simp add: render_failed_def extraction_def)

lemma sum_without_failed:
  "(\<Sum>t\<in>#M. mset (extraction parse browser t))
   = (\<Sum>t\<in>#filter_mset (\<lambda>t. \<not> render_failed browser t) M. mset (extraction parse browser t))"
  by (induction M) (simp_all add: extraction_failed)

subsection \<open>Every run can be finished\<close>

lemma exec_append:
  "exec parse browser (es @ es') s =
     (case exec parse browser es s of None \<Rightarrow> None | Some s1 \<Rightarrow> exec parse browser es' s1)"
  by (induction es arbitrary: s) (simp_all split: option.splits)

lemma progress:
  assumes i: "coord_inv parse browser self n s" and k: "1 \<le> max_workers self"
    and o: "\<not> run_over s"
  shows "\<exists>e s'. step parse browser e s = Some s'"
proof (cases "active s")
  case Nil
  have r: "raised s = None" and f: "length (finished s) \<noteq> length (urls s)"
    using o by (simp_all add: run_over_def)
  have "length (created_tasks self) = length (urls s)"
    using i k by (simp add: coord_inv_def created_tasks_def)
  then have "waiting s \<noteq> []" using inv_sizes [OF i] f Nil by auto
  then obtain t ts where w: "waiting s = t # ts" by (cases "waiting s") auto
  have "0 < sem_value s" using i k Nil by (simp add: coord_inv_def)
  then have "\<exists>s'. step parse browser Acquire s = Some s'" using r w by simp
  then show ?thesis by blast
next
  case (Cons t ts)
  have r: "raised s = None" using o by (simp add: run_over_def)
  have f: "find (\<lambda>x. fst x = fst t) (active s) = Some t" using Cons by simp
  obtain res s1 lines where "process_url parse (browser (fst t)) (snd t) s = (res, s1, lines)"
    by (cases "process_url parse (browser (fst t)) (snd t) s")
  then have "\<exists>s'. step parse browser (Complete (fst t)) s = Some s'" using r f by simp
  then show ?thesis by blast
qed

lemma can_finish:
  assumes "coord_inv parse browser self n s" and "1 \<le> max_workers self"
  shows "\<exists>es' s'. exec parse browser es' s = Some s' \<and> run_over s'"
  using assms
proof (induction "2 * length (created_tasks self) - n" arbitrary: n s rule: less_induct)
  case less
  show ?case
  proof (cases "run_over s")
    case True
    then have "exec parse browser [] s = Some s \<and> run_over s" by simp
    then show ?thesis by blast
  next
    case False
    then obtain e s1 where st: "step parse browser e s = Some s1"
      using progress [OF less.prems False] by blast
    have i1: "coord_inv parse browser self (Suc n) s1"
      using less.prems(1) st by (rule inv_step)
    then have "Suc n \<le> 2 * length (created_tasks self)" by (simp add: coord_inv_def)
    then have "2 * length (created_tasks self) - Suc n < 2 * length (created_tasks self) - n"
      by simp
    then obtain es' s' where "exec parse browser es' s1 = Some s'" "run_over s'"
      using less.hyps [OF _ i1 less.prems(2)] by blast
    then have "exec parse browser (e # es') s = Some s' \<and> run_over s'" using st by simp
    then show ?thesis by blast
  qed
qed

text \<open>With no permit at all nothing ever starts: a run on zero workers makes no event.\<close>

lemma zero_workers_stuck:
  assumes "exec parse browser es (process_urls_start (new_scraper arg 0)) = Some s"
  shows "es = []"
proof (cases es)
  case Nil
  then show ?thesis .
next
  case (Cons e es')
  have "step parse browser e (process_urls_start (new_scraper arg 0)) = None"
    by (cases e) (simp_all add: process_urls_start_def new_scraper_def)
  then show ?thesis using assms Cons by simp
qed

text \<open>
  An empty page source is skipped by \<open>if html:\<close>. For a parser that finds no record in
  the empty document, as \<open>parse_page\<close> of \<open>PracujPlScraper\<close> does when the markup library
  finds no block in it, what a task adds is \<open>parse_page\<close> of the page it fetched.
\<close>

lemma extraction_fetched:
  assumes "parse [] = Inr []"
    and "fst (fetch_page (browser (fst t)) (snd t)) = Inr (Some html)"
    and "parse html = Inr page_data"
  shows "extraction parse browser t = page_data"
  using assms by (auto simp add: extraction_def)



subsection \<open>Bounded concurrency, aggregation and fault isolation\<close>

lemmas run_defs =
  ex_scraper_def ex_browser_def ex_parse_def new_scraper_def process_urls_start_def
  created_tasks_def process_url_def fetch_error_line_def returned_def run_over_def
  render_failed_def extraction_def



text \<open>
  C3. When \<open>process_urls\<close> returns, no task is waiting or in its cycle, the finished tasks
  are the created ones in some order, and \<open>self.data\<close> of a new scraper is the
  concatenation of what the tasks extracted, in the order they finished; as a multiset it
  is the union of the per-URL extraction results, whatever that order was.
\<close>

theorem aggregate_is_union:
  assumes "exec parse browser es (process_urls_start (new_scraper arg workers)) = Some s"
    and "returned s"
  shows "waiting s = [] \<and> active s = []
     \<and> mset (finished s) = mset (zip [0..<length (urls s)] (urls s))
     \<and> data s = concat (map (extraction parse browser) (finished s))
     \<and> mset (data s) =
         (\<Sum>t\<in>#mset (zip [0..<length (urls s)] (urls s)). mset (extraction parse browser t))"
proof -
  let ?self = "new_scraper arg workers"
  have i: "coord_inv parse browser ?self (length es) s" using assms(1) by (rule inv_run)
  note r = inv_returned [OF i assms(2)]
  have f: "mset (finished s) = mset (zip [0..<length (urls s)] (urls s))"
    using r(3) r(4) by simp
  have d: "data s = concat (map (extraction parse browser) (finished s))"
    using i by (simp add: coord_inv_def new_scraper_def)
  have "mset (data s) = (\<Sum>t\<in>#mset (finished s). mset (extraction parse browser t))"
    unfolding d by (rule mset_concat_map)
  then show ?thesis using r(1) r(2) f d by simp
qed

theorem aggregate_is_union_witness:
  "\<exists>s1 s2.
     exec ex_parse ex_browser [Acquire, Acquire, Complete 0, Acquire, Complete 1, Complete 2]
       (process_urls_start ex_scraper) = Some s1
     \<and> exec ex_parse ex_browser [Acquire, Acquire, Complete 0, Acquire, Complete 2, Complete 1]
       (process_urls_start ex_scraper) = Some s2
     \<and> returned s1 \<and> returned s2
     \<and> data s1 = [[(k_link, Str [61])], [(k_link, Str [62])]]
     \<and> data s2 = [[(k_link, Str [62])], [(k_link, Str [61])]]
     \<and> mset (data s1) = mset (data s2)
     \<and> waiting s2 = [] \<and> active s2 = []"
proof -
  have "\<exists>s1. exec ex_parse ex_browser [Acquire, Acquire, Complete 0, Acquire, Complete 1, Complete 2]
       (process_urls_start ex_scraper) = Some s1
      \<and> returned s1 \<and> urls s1 = urls ex_scraper
      \<and> data s1 = [[(k_link, Str [61])], [(k_link, Str [62])]]"
    by (simp add: run_defs)
  then obtain s1 where e1:
      "exec ex_parse ex_browser [Acquire, Acquire, Complete 0, Acquire, Complete 1, Complete 2]
       (process_urls_start (new_scraper (UrlList [ascii ''a'', ascii ''b'', ascii ''c'']) 2)) = Some s1"
    and r1: "returned s1" and u1: "urls s1 = urls ex_scraper"
    and d1: "data s1 = [[(k_link, Str [61])], [(k_link, Str [62])]]"
    unfolding ex_scraper_def by blast
  have "\<exists>s2. exec ex_parse ex_browser [Acquire, Acquire, Complete 0, Acquire, Complete 2, Complete 1]
       (process_urls_start ex_scraper) = Some s2
      \<and> returned s2 \<and> urls s2 = urls ex_scraper
      \<and> data s2 = [[(k_link, Str [62])], [(k_link, Str [61])]]"
    by (simp add: run_defs)
  then obtain s2 where e2:
      "exec ex_parse ex_browser [Acquire, Acquire, Complete 0, Acquire, Complete 2, Complete 1]
       (process_urls_start (new_scraper (UrlList [ascii ''a'', ascii ''b'', ascii ''c'']) 2)) = Some s2"
    and r2: "returned s2" and u2: "urls s2 = urls ex_scraper"
    and d2: "data s2 = [[(k_link, Str [62])], [(k_link, Str [61])]]"
    unfolding ex_scraper_def by blast
  have m1: "mset (data s1) =
      (\<Sum>t\<in>#mset (zip [0..<length (urls s1)] (urls s1)). mset (extraction ex_parse ex_browser t))"
    using aggregate_is_union [OF e1 r1] by blast
  have m2: "mset (data s2) =
      (\<Sum>t\<in>#mset (zip [0..<length (urls s2)] (urls s2)). mset (extraction ex_parse ex_browser t))"
    and w2: "waiting s2 = []" "active s2 = []"
    using aggregate_is_union [OF e2 r2] by blast+
  have "mset (data s1) = mset (data s2) \<and> waiting s2 = [] \<and> active s2 = []"
    using w2 unfolding m1 m2 u1 u2 by simp
  then show ?thesis using e1 e2 r1 r2 d1 d2 unfolding ex_scraper_def by blast
qed


text \<open>
  C1. Take a new scraper with at least one worker and any state a run of \<open>process_urls\<close>
  reaches. The run has made at most two events per URL, and it can always be carried on to
  a state where it is over. A finished task whose page fetch returned \<open>None\<close> has added no
  record, and the log holds the line of level \<open>ERROR\<close> with the text
  \<open>Error fetching URL\<close>, the URL, a colon and the text of the exception its browser
  raised. Completing such a task raises nothing and
  leaves \<open>self.data\<close>, the waiting tasks and the other tasks in their cycle as they were.
  When the run returns, \<open>self.data\<close> is, as a multiset, the union of the extraction results
  of all the tasks whose fetch did not fail.
\<close>

theorem rendering_failure_isolated:
  assumes "1 \<le> workers"
    and "exec parse browser es (process_urls_start (new_scraper arg workers)) = Some s"
  shows "length es \<le> 2 * length (urls s)
     \<and> (\<exists>es' s'. exec parse browser (es @ es') (process_urls_start (new_scraper arg workers))
                    = Some s' \<and> run_over s')
     \<and> (\<forall>t\<in>set (finished s). render_failed browser t \<longrightarrow>
           extraction parse browser t = []
           \<and> (\<exists>str_e. (browser (fst t) = NoDriver str_e \<or> browser (fst t) = Crashed str_e None)
                \<and> (ERROR, ascii ''Error fetching URL '' @ snd t @ ascii '': '' @ str_e)
                     \<in> set (console s)))
     \<and> (step parse browser (Complete i) s = Some s1 \<and> render_failed browser (i, urls s ! i) \<longrightarrow>
           raised s1 = None \<and> data s1 = data s \<and> waiting s1 = waiting s
           \<and> active s1 = remove1 (i, urls s ! i) (active s))
     \<and> (returned s \<longrightarrow>
           mset (data s) =
             (\<Sum>t\<in>#filter_mset (\<lambda>t. \<not> render_failed browser t)
                      (mset (zip [0..<length (urls s)] (urls s))).
                 mset (extraction parse browser t)))"
proof -
  let ?self = "new_scraper arg workers"
  have k: "1 \<le> max_workers ?self" using assms(1) by (simp add: new_scraper_def)
  have i: "coord_inv parse browser ?self (length es) s" using assms(2) by (rule inv_run)
  have u: "urls s = urls ?self" using i by (simp add: coord_inv_def)
  have l: "length (created_tasks ?self) = length (urls s)"
    using k u by (simp add: created_tasks_def)
  have "length es + 2 * length (waiting s) + length (active s) = 2 * length (created_tasks ?self)"
    using i by (simp add: coord_inv_def)
  then have a: "length es \<le> 2 * length (urls s)"
    unfolding l by linarith
  obtain es' s' where "exec parse browser es' s = Some s'" and "run_over s'"
    using can_finish [OF i k] by blast
  then have "exec parse browser (es @ es') (process_urls_start ?self) = Some s' \<and> run_over s'"
    using assms(2) by (simp add: exec_append)
  then have b: "\<exists>es' s'. exec parse browser (es @ es') (process_urls_start ?self) = Some s'
      \<and> run_over s'"
    by blast
  have c: "extraction parse browser t = []
           \<and> (\<exists>str_e. (browser (fst t) = NoDriver str_e \<or> browser (fst t) = Crashed str_e None)
                \<and> (ERROR, ascii ''Error fetching URL '' @ snd t @ ascii '': '' @ str_e)
                     \<in> set (console s))"
    if t: "t \<in> set (finished s)" and f: "render_failed browser t" for t
  proof -
    have "fst (fetch_page (browser (fst t)) (snd t)) = Inr None"
      using f by (simp add: render_failed_def)
    then obtain str_e
      where b: "browser (fst t) = NoDriver str_e \<or> browser (fst t) = Crashed str_e None"
        and l: "snd (fetch_page (browser (fst t)) (snd t)) = [fetch_error_line (snd t) str_e]"
      using fetch_page_None by blast
    have "set (snd (fetch_page (browser (fst t)) (snd t))) \<subseteq> set (console s)"
      using i t by (simp add: coord_inv_def)
    then have "fetch_error_line (snd t) str_e \<in> set (console s)" using l by simp
    then have "(ERROR, ascii ''Error fetching URL '' @ snd t @ ascii '': '' @ str_e)
        \<in> set (console s)"
      by (simp add: fetch_error_line_def)
    then show ?thesis using extraction_failed [OF f] b by blast
  qed
  have d: "raised s1 = None \<and> data s1 = data s \<and> waiting s1 = waiting s
           \<and> active s1 = remove1 (i, urls s ! i) (active s)"
    if st: "step parse browser (Complete i) s = Some s1"
      and f: "render_failed browser (i, urls s ! i)"
  proof -
    obtain t lines where t: "t \<in> set (active s)" and ti: "fst t = i" and "raised s = None"
      and "set (snd (fetch_page (browser i) (snd t))) \<subseteq> set lines"
      and s1: "s1 = s\<lparr>data := data s @ extraction parse browser t,
                  console := console s @ lines,
                  sem_value := sem_value s + 1,
                  active := remove1 t (active s),
                  finished := finished s @ [t],
                  raised := (case fst (process_url parse (browser i) (snd t) s) of
                               Inl e \<Rightarrow> Some e | Inr u \<Rightarrow> None)\<rparr>"
      using st by (rule step_Complete)
    have "snd t = urls ?self ! fst t"
      using created_tasks_nth [OF inv_active_created [OF i t]] by simp
    then have "snd t = urls s ! i" using ti u by simp
    then have te: "t = (i, urls s ! i)" using ti by (cases t) simp
    then have ft: "render_failed browser t" using f by simp
    have "fst (fetch_page (browser i) (snd t)) = Inr None"
      using ft ti by (simp add: render_failed_def)
    then have "fst (process_url parse (browser i) (snd t) s) = Inr ()"
      by (rule process_url_failed)
    then show ?thesis unfolding s1 using extraction_failed [OF ft] te by simp
  qed
  have e: "mset (data s) =
             (\<Sum>t\<in>#filter_mset (\<lambda>t. \<not> render_failed browser t)
                      (mset (zip [0..<length (urls s)] (urls s))).
                 mset (extraction parse browser t))"
    if r: "returned s"
  proof -
    note q = inv_returned [OF i r]
    have "data s = concat (map (extraction parse browser) (finished s))"
      using i by (simp add: coord_inv_def new_scraper_def)
    then have "mset (data s) = (\<Sum>t\<in>#mset (finished s). mset (extraction parse browser t))"
      by (simp only: mset_concat_map)
    also have "\<dots> = (\<Sum>t\<in>#mset (zip [0..<length (urls s)] (urls s)).
          mset (extraction parse browser t))"
      using q(3) q(4) by simp
    finally show ?thesis by (simp only: sum_without_failed [symmetric])
  qed
  show ?thesis using a b c d e by blast
qed

theorem rendering_failure_isolated_witness:
  "\<exists>s2 s3 s6.
     (1::int) \<le> 2
     \<and> exec ex_parse ex_browser [Acquire, Acquire]
         (process_urls_start (new_scraper (UrlList [ascii ''a'', ascii ''b'', ascii ''c'']) 2))
         = Some s2
     \<and> render_failed ex_browser (0, urls s2 ! 0)
     \<and> step ex_parse ex_browser (Complete 0) s2 = Some s3
     \<and> raised s3 = None \<and> data s3 = data s2 \<and> waiting s3 = waiting s2
     \<and> active s3 = [(1, ascii ''b'')]
     \<and> exec ex_parse ex_browser [Acquire, Complete 1, Complete 2] s3 = Some s6
     \<and> returned s6
     \<and> (0, ascii ''a'') \<in> set (finished s6)
     \<and> render_failed ex_browser (0, ascii ''a'')
     \<and> ex_browser 0 = Crashed (ascii ''timeout'') None
     \<and> (ERROR, ascii ''Error fetching URL a: timeout'') \<in> set (console s6)
     \<and> console s6 = [(ERROR, ascii ''Error fetching URL a: timeout''),
                      (INFO, ascii ''Processed b, found 1 listings''),
                      (INFO, ascii ''Processed c, found 1 listings'')]
     \<and> data s6 = [[(k_link, Str [61])], [(k_link, Str [62])]]
     \<and> mset (data s6) =
         (\<Sum>t\<in>#filter_mset (\<lambda>t. \<not> render_failed ex_browser t)
                  (mset (zip [0..<length (urls s6)] (urls s6))).
             mset (extraction ex_parse ex_browser t))"
proof -
  let ?start = "process_urls_start (new_scraper (UrlList [ascii ''a'', ascii ''b'', ascii ''c'']) 2)"
  have "\<exists>s2. exec ex_parse ex_browser [Acquire, Acquire] ?start = Some s2
      \<and> render_failed ex_browser (0, urls s2 ! 0)
      \<and> (\<exists>s3. step ex_parse ex_browser (Complete 0) s2 = Some s3
           \<and> active s3 = [(1, ascii ''b'')]
           \<and> (\<exists>s6. exec ex_parse ex_browser [Acquire, Complete 1, Complete 2] s3 = Some s6
                \<and> returned s6 \<and> (0, ascii ''a'') \<in> set (finished s6)
                \<and> console s6 = [(ERROR, ascii ''Error fetching URL a: timeout''),
                                 (INFO, ascii ''Processed b, found 1 listings''),
                                 (INFO, ascii ''Processed c, found 1 listings'')]
                \<and> data s6 = [[(k_link, Str [61])], [(k_link, Str [62])]]))"
    by (simp add: run_defs ascii_def str_nat.simps)
  then obtain s2 s3 s6
    where e2: "exec ex_parse ex_browser [Acquire, Acquire] ?start = Some s2"
      and f: "render_failed ex_browser (0, urls s2 ! 0)"
      and st: "step ex_parse ex_browser (Complete 0) s2 = Some s3"
      and a3: "active s3 = [(1, ascii ''b'')]"
      and e6: "exec ex_parse ex_browser [Acquire, Complete 1, Complete 2] s3 = Some s6"
      and r6: "returned s6"
      and p6: "(0, ascii ''a'') \<in> set (finished s6)"
         "console s6 = [(ERROR, ascii ''Error fetching URL a: timeout''),
                        (INFO, ascii ''Processed b, found 1 listings''),
                        (INFO, ascii ''Processed c, found 1 listings'')]"
         "data s6 = [[(k_link, Str [61])], [(k_link, Str [62])]]"
    by blast
  have fa: "render_failed ex_browser (0, ascii ''a'')"
    and b0: "ex_browser 0 = Crashed (ascii ''timeout'') None"
    by (simp_all add: render_failed_def ex_browser_def)
  have k: "(1::int) \<le> 2" by simp
  have "exec ex_parse ex_browser ([Acquire, Acquire] @ [Complete 0]) ?start = Some s3"
    unfolding exec_append e2 by (simp only: option.case exec.simps st)
  then have "exec ex_parse ex_browser
      (([Acquire, Acquire] @ [Complete 0]) @ [Acquire, Complete 1, Complete 2]) ?start = Some s6"
    unfolding exec_append [of _ _ "[Acquire, Acquire] @ [Complete 0]"]
    by (simp only: option.case e6)
  then have e: "exec ex_parse ex_browser
      [Acquire, Acquire, Complete 0, Acquire, Complete 1, Complete 2] ?start = Some s6"
    by simp
  have "raised s3 = None \<and> data s3 = data s2 \<and> waiting s3 = waiting s2"
    using rendering_failure_isolated [OF k e2, of 0 s3] st f by blast
  moreover have "mset (data s6) =
         (\<Sum>t\<in>#filter_mset (\<lambda>t. \<not> render_failed ex_browser t)
                  (mset (zip [0..<length (urls s6)] (urls s6))).
             mset (extraction ex_parse ex_browser t))"
    using rendering_failure_isolated [OF k e, of 0 s3] r6 by blast
  moreover have "(ERROR, ascii ''Error fetching URL a: timeout'') \<in> set (console s6)"
  proof -
    obtain str_e
      where "ex_browser (fst (0::nat, ascii ''a'')) = NoDriver str_e
             \<or> ex_browser (fst (0::nat, ascii ''a'')) = Crashed str_e None"
        and l: "(ERROR, ascii ''Error fetching URL '' @ snd (0::nat, ascii ''a'') @ ascii '': '' @ str_e)
             \<in> set (console s6)"
      using rendering_failure_isolated [OF k e, of 0 s3] p6(1) fa by blast
    then have "str_e = ascii ''timeout''" using b0 by simp
    then show ?thesis using l by (simp add: ascii_def)
  qed
  ultimately show ?thesis using k e2 f st a3 e6 r6 p6 fa b0 by blast
qed


section \<open>Properties of parse_page\<close>

lemma parse_offers_nth:
  "parse_offers bs = Inr js \<Longrightarrow>
     length js = length bs \<and> (\<forall>i<length bs. job_data (bs ! i) = Inr (js ! i))"
proof (induction bs arbitrary: js)
  case Nil
  then show ?case by simp
next
  case (Cons b bs)
  then obtain j js' where j: "job_data b = Inr j" and r: "parse_offers bs = Inr js'"
    and js: "js = j # js'"
    by (auto split: sum.splits)
  have "length js' = length bs \<and> (\<forall>i<length bs. job_data (bs ! i) = Inr (js' ! i))"
    using r by (rule Cons.IH)
  then show ?case using j js by (auto simp add: nth_Cons split: nat.splits)
qed

lemma key_defs_distinct:
  "k_technologie \<noteq> k_tytul" "k_technologie \<noteq> k_firma" "k_technologie \<noteq> k_data"
  "k_technologie \<noteq> k_wynagrodzenie"
  by (simp_all add: k_technologie_def k_tytul_def k_firma_def k_data_def k_wynagrodzenie_def
      ascii_def)

lemma job_data_technologie:
  "job_data b = Inr j \<Longrightarrow> map_of j k_technologie = Some (technologie_of b)"
  by (auto simp add: job_data_def key_defs_distinct split: sum.splits)

lemma job_data_keys:
  "job_data b = Inr j \<Longrightarrow>
     map fst j = [k_tytul, k_firma, k_data, k_wynagrodzenie, k_technologie, k_link]"
  by (auto simp add: job_data_def split: sum.splits)

lemma parse_page_keys:
  assumes "parse_page soup html = Inr js" and "j \<in> set js"
  shows "map fst j = [k_tytul, k_firma, k_data, k_wynagrodzenie, k_technologie, k_link]"
proof -
  have p: "parse_offers (soup html) = Inr js" using assms(1) by (simp add: parse_page_def)
  obtain i where "i < length js" and "j = js ! i"
    using assms(2) by (auto simp add: in_set_conv_nth)
  then have "job_data (soup html ! i) = Inr j"
    using parse_offers_nth [OF p] by simp
  then show ?thesis by (rule job_data_keys)
qed

lemma extraction_from_parse:
  assumes "j \<in> set (extraction parse browser t)"
  shows "\<exists>html js. parse html = Inr js \<and> j \<in> set js"
proof (cases "fst (fetch_page (browser (fst t)) (snd t))")
  case (Inl e)
  then show ?thesis using assms by (simp add: extraction_def)
next
  case fetched: (Inr r)
  show ?thesis
  proof (cases r)
    case None
    then show ?thesis using assms fetched by (simp add: extraction_def)
  next
    case page: (Some html)
    show ?thesis
    proof (cases "parse html")
      case (Inl e)
      then show ?thesis using assms fetched page by (simp add: extraction_def split: if_splits)
    next
      case (Inr js)
      then have "j \<in> set js"
        using assms fetched page by (simp add: extraction_def split: if_splits)
      then show ?thesis using Inr by blast
    qed
  qed
qed

text \<open>Every record a run with this parser collects has the same six keys, in one order.\<close>

lemma run_data_keys:
  assumes "exec (parse_page soup) browser es (process_urls_start (new_scraper arg workers)) = Some s"
    and "j \<in> set (data s)"
  shows "map fst j = [k_tytul, k_firma, k_data, k_wynagrodzenie, k_technologie, k_link]"
proof -
  have "coord_inv (parse_page soup) browser (new_scraper arg workers) (length es) s"
    using assms(1) by (rule inv_run)
  then have "data s = concat (map (extraction (parse_page soup) browser) (finished s))"
    by (simp add: coord_inv_def new_scraper_def)
  then obtain t where "j \<in> set (extraction (parse_page soup) browser t)"
    using assms(2) by auto
  then obtain html js where "parse_page soup html = Inr js" and "j \<in> set js"
    using extraction_from_parse by blast
  then show ?thesis by (rule parse_page_keys)
qed

text \<open>
  C7. In the records \<open>parse_page\<close> returns, the \<open>Technologie\<close> field of the record of a
  block with no technology tag is the string \<open>Brak technologii\<close>, which is not the empty
  list; for a block with \<open>n \<ge> 1\<close> tags it is the list of the \<open>n\<close> stripped texts of
  these tags, in the order \<open>find_all\<close> gave them.
\<close>

theorem technologie_field:
  assumes "parse_page soup html = Inr js" and "i < length (soup html)"
  shows "length js = length (soup html)
     \<and> (tech_tags (soup html ! i) = [] \<longrightarrow>
          map_of (js ! i) k_technologie = Some (Str (ascii ''Brak technologii'')))
     \<and> (tech_tags (soup html ! i) \<noteq> [] \<longrightarrow>
          map_of (js ! i) k_technologie
            = Some (StrList (map get_text_strip (tech_tags (soup html ! i)))))
     \<and> Str (ascii ''Brak technologii'') \<noteq> StrList []
     \<and> length (map get_text_strip (tech_tags (soup html ! i))) = length (tech_tags (soup html ! i))"
proof -
  have p: "parse_offers (soup html) = Inr js" using assms(1) by (simp add: parse_page_def)
  have "job_data (soup html ! i) = Inr (js ! i)"
    using parse_offers_nth [OF p] assms(2) by blast
  then have "map_of (js ! i) k_technologie = Some (technologie_of (soup html ! i))"
    by (rule job_data_technologie)
  then show ?thesis
    using parse_offers_nth [OF p] by (simp add: technologie_of_def brak_technologii_def)
qed

theorem technologie_field_witness:
  "\<exists>js. parse_page (\<lambda>html. [ex_plain, ex_tech]) (ascii ''<html>'') = Inr js
     \<and> (0::nat) < length [ex_plain, ex_tech] \<and> (1::nat) < length [ex_plain, ex_tech]
     \<and> tech_tags ([ex_plain, ex_tech] ! 0) = []
     \<and> tech_tags ([ex_plain, ex_tech] ! 1) \<noteq> []
     \<and> length js = 2
     \<and> map_of (js ! 0) k_technologie = Some (Str (ascii ''Brak technologii''))
     \<and> map_of (js ! 1) k_technologie = Some (StrList [ascii ''Python'', ascii ''SQL''])"
proof -
  have "\<exists>js. parse_page (\<lambda>html. [ex_plain, ex_tech]) (ascii ''<html>'') = Inr js"
    by (simp add: parse_page_def job_data_def link_of_def ex_plain_def ex_tech_def)
  then obtain js where p: "parse_page (\<lambda>html. [ex_plain, ex_tech]) (ascii ''<html>'') = Inr js"
    by blast
  have a: "(0::nat) < length [ex_plain, ex_tech]" and b: "(1::nat) < length [ex_plain, ex_tech]"
    by simp_all
  have c: "tech_tags ([ex_plain, ex_tech] ! 0) = []"
    by (simp add: ex_plain_def)
  have d: "tech_tags ([ex_plain, ex_tech] ! 1) \<noteq> []"
    by (simp add: ex_tech_def ex_plain_def)
  have e: "map get_text_strip (tech_tags ([ex_plain, ex_tech] ! 1)) = [ascii ''Python'', ascii ''SQL'']"
    by (simp add: ex_tech_def ex_plain_def get_text_strip_def py_strip_def isspace_def ascii_def)
  have "length js = 2 \<and> map_of (js ! 0) k_technologie = Some (Str (ascii ''Brak technologii''))"
    using technologie_field [OF p a] c by simp
  moreover have "map_of (js ! 1) k_technologie = Some (StrList [ascii ''Python'', ascii ''SQL''])"
    using technologie_field [OF p b] d e by simp
  ultimately show ?thesis using p a b c d by blast
qed

section \<open>Properties of save_to_csv\<close>

lemma dict_to_list_all:
  "\<forall>row\<in>set rows. set (map fst row) \<subseteq> set fieldnames \<Longrightarrow>
     map (dict_to_list fieldnames) rows = map Inr (map (cells fieldnames) rows)"
  by (induction rows) (auto simp add: dict_to_list_def list_ex_iff)

text \<open>With no failing write and no cell that cannot be encoded, every row is written.\<close>

lemma write_from_all:
  assumes "\<forall>n. length written \<le> n \<and> n \<le> length written + length rows \<longrightarrow> werr n = None"
    and "\<forall>line\<in>set rows. list_all cell_encodable line"
  shows "write_from werr written (map Inr rows) = (Closed, Written (written @ rows))"
  using assms
proof (induction rows arbitrary: written)
  case Nil
  then show ?case by simp
next
  case (Cons line rows)
  have w: "werr (length written) = None" using Cons.prems(1) by simp
  have e: "list_all cell_encodable line" using Cons.prems(2) by simp
  have "write_from werr (written @ [line]) (map Inr rows)
      = (Closed, Written ((written @ [line]) @ rows))"
  proof (rule Cons.IH)
    show "\<forall>n. length (written @ [line]) \<le> n \<and> n \<le> length (written @ [line]) + length rows
        \<longrightarrow> werr n = None"
      using Cons.prems(1) by simp
    show "\<forall>line\<in>set rows. list_all cell_encodable line"
      using Cons.prems(2) by simp
  qed
  then show ?case using w e by simp
qed

text \<open>
  When the first \<open>n\<close> rows are handed over and then the disk refuses, the block ends
  with that \<open>IOError\<close>.
\<close>

lemma write_from_fails:
  assumes "take (length lines) pending = map Inr lines"
    and "\<forall>line\<in>set lines. list_all cell_encodable line"
    and "\<forall>m<length lines. werr (length written + m) = None"
    and "werr (length written + length lines) = Some msg"
  shows "write_from werr written pending = (IOFailed msg, Torn (written @ lines))"
  using assms
proof (induction lines arbitrary: written pending)
  case Nil
  then show ?case by (cases pending) simp_all
next
  case (Cons line lines)
  obtain rest where p: "pending = Inr line # rest"
    and t: "take (length lines) rest = map Inr lines"
    using Cons.prems(1) by (cases pending) auto
  have w: "werr (length written) = None" using Cons.prems(3) by force
  have e: "list_all cell_encodable line" using Cons.prems(2) by simp
  have "write_from werr (written @ [line]) rest = (IOFailed msg, Torn ((written @ [line]) @ lines))"
  proof (rule Cons.IH [OF t])
    show "\<forall>line\<in>set lines. list_all cell_encodable line"
      using Cons.prems(2) by simp
    show "\<forall>m<length lines. werr (length (written @ [line]) + m) = None"
      using Cons.prems(3) by force
    show "werr (length (written @ [line]) + length lines) = Some msg"
      using Cons.prems(4) by simp
  qed
  then show ?case using p w e by simp
qed

lemma cells_own_keys:
  "distinct (map fst row) \<Longrightarrow> cells (map fst row) row = map snd row"
proof -
  assume d: "distinct (map fst row)"
  have "\<And>kv. kv \<in> set row \<Longrightarrow> map_of row (fst kv) = Some (snd kv)"
    using d by simp
  then show ?thesis by (simp add: cells_def)
qed

text \<open>An exception that leaves \<open>save_to_csv\<close> leaves \<open>main\<close> too: the exit status is 1.\<close>

lemma exit_status_raised:
  "fst (save_to_csv self job_listings_csv d) = Inl e \<Longrightarrow> exit_status self d = 1"
  by (simp add: exit_status_def)

text \<open>
  C8. With no record, \<open>save_to_csv\<close> logs a warning and the disk is as before: no file is
  created or truncated. With a record, when the path can be opened, no write and no close
  fails, no record holds a key the first one lacks and every cell can be encoded, the
  file at the path becomes the header row, which is the keys of the first record in their
  order, followed by one row per record in the order of \<open>self.data\<close>, each row holding
  the values of its record under the keys of the header; the row of a record with the
  keys of the first one is its values in that order.
\<close>

theorem save_to_csv_rows:
  "(data self = [] \<longrightarrow>
      save_to_csv self filename d = (Inr (), d, [(WARNING, ascii ''No data to save'')]))
   \<and> (data self = first # rest \<and> open_error d filename = None
       \<and> (\<forall>n\<le>Suc (length (data self)). write_error d filename n = None)
       \<and> (\<forall>row\<in>set (data self). set (map fst row) \<subseteq> set (map fst first))
       \<and> (\<forall>k\<in>set (map fst first). encodable k)
       \<and> (\<forall>row\<in>set (data self). list_all cell_encodable (cells (map fst first) row)) \<longrightarrow>
      save_to_csv self filename d =
        (Inr (),
         d\<lparr>files := (files d)(filename \<mapsto>
              Written (map Str (map fst first) # map (cells (map fst first)) (data self)))\<rparr>,
         [(INFO, ascii ''Data saved to '' @ filename)])
      \<and> length (map (cells (map fst first)) (data self)) = length (data self))
   \<and> (map fst row = map fst first \<and> distinct (map fst first) \<longrightarrow>
        cells (map fst first) row = map snd row)
   \<and> (map_of row k = Some v \<longrightarrow> cells [k] row = [v])"
proof -
  have a: "save_to_csv self filename d = (Inr (), d, [(WARNING, ascii ''No data to save'')])"
    if "data self = []"
    using that by (simp add: save_to_csv_def)
  have b: "save_to_csv self filename d =
        (Inr (),
         d\<lparr>files := (files d)(filename \<mapsto>
              Written (map Str (map fst first) # map (cells (map fst first)) (data self)))\<rparr>,
         [(INFO, ascii ''Data saved to '' @ filename)])"
    if f: "data self = first # rest" and o: "open_error d filename = None"
      and w: "\<forall>n\<le>Suc (length (data self)). write_error d filename n = None"
      and k: "\<forall>row\<in>set (data self). set (map fst row) \<subseteq> set (map fst first)"
      and h: "\<forall>k\<in>set (map fst first). encodable k"
      and c: "\<forall>row\<in>set (data self). list_all cell_encodable (cells (map fst first) row)"
  proof -
    let ?header = "map Str (map fst first)"
    let ?rows = "map (cells (map fst first)) (data self)"
    have p: "Inr ?header # map (dict_to_list (map fst first)) (data self)
        = map Inr (?header # ?rows)"
      using dict_to_list_all [OF k] by simp
    have "write_from (write_error d filename) [] (map Inr (?header # ?rows))
        = (Closed, Written ([] @ (?header # ?rows)))"
    proof (rule write_from_all)
      show "\<forall>n. length [] \<le> n \<and> n \<le> length [] + length (?header # ?rows)
          \<longrightarrow> write_error d filename n = None"
        using w by simp
      show "\<forall>line\<in>set (?header # ?rows). list_all cell_encodable line"
        using h c by (auto simp add: list_all_iff)
    qed
    then have "write_from (write_error d filename) []
          (Inr ?header # map (dict_to_list (map fst first)) (data self))
        = (Closed, Written (?header # ?rows))"
      unfolding p by simp
    then show ?thesis using f o by (simp add: save_to_csv_def Let_def del: write_from.simps)
  qed
  have c: "cells (map fst first) row = map snd row"
    if "map fst row = map fst first" and "distinct (map fst first)"
    using that cells_own_keys [of row] by simp
  have e: "cells [k] row = [v]" if "map_of row k = Some v"
    using that by (simp add: cells_def)
  show ?thesis using a b c e by simp
qed

theorem save_to_csv_rows_witness:
  "data ex_scraper = []
   \<and> save_to_csv ex_scraper job_listings_csv (ex_disk None (\<lambda>n. None))
       = (Inr (), ex_disk None (\<lambda>n. None), [(WARNING, ascii ''No data to save'')])
   \<and> files (ex_disk None (\<lambda>n. None)) job_listings_csv = None
   \<and> open_error (ex_disk None (\<lambda>n. None)) job_listings_csv = None
   \<and> data ex_saved = [(k_firma, Str (ascii ''A'')), (k_link, Str (ascii ''x''))]
                     # [[(k_link, Str (ascii ''y'')), (k_firma, Str (ascii ''B''))]]
   \<and> save_to_csv ex_saved job_listings_csv (ex_disk None (\<lambda>n. None))
       = (Inr (),
          (ex_disk None (\<lambda>n. None))
            \<lparr>files := [job_listings_csv \<mapsto>
               Written [[Str (ascii ''Firma''), Str (ascii ''Link'')],
                        [Str (ascii ''A''), Str (ascii ''x'')],
                        [Str (ascii ''B''), Str (ascii ''y'')]]]\<rparr>,
          [(INFO, ascii ''Data saved to job_listings.csv'')])"
proof -
  let ?r1 = "[(k_firma, Str (ascii ''A'')), (k_link, Str (ascii ''x''))]"
  let ?r2 = "[(k_link, Str (ascii ''y'')), (k_firma, Str (ascii ''B''))]"
  let ?d = "ex_disk None (\<lambda>n. None)"
  have a: "data ex_scraper = []" by (simp add: ex_scraper_def new_scraper_def)
  have b: "data ex_saved = ?r1 # [?r2]" by (simp add: ex_saved_def)
  have c: "open_error ?d job_listings_csv = None" by (simp add: ex_disk_def)
  have w: "\<forall>n\<le>Suc (length (data ex_saved)). write_error ?d job_listings_csv n = None"
    by (simp add: ex_disk_def)
  have k: "\<forall>row\<in>set (data ex_saved). set (map fst row) \<subseteq> set (map fst ?r1)"
    by (auto simp add: ex_saved_def)
  have h: "\<forall>k\<in>set (map fst ?r1). encodable k"
    by (simp add: encodable_def k_firma_def k_link_def ascii_def)
  have e: "k_firma \<noteq> k_link" by (simp add: k_firma_def k_link_def ascii_def)
  have o: "\<forall>row\<in>set (data ex_saved). list_all cell_encodable (cells (map fst ?r1) row)"
    using e by (simp add: ex_saved_def cells_def encodable_def ascii_def)
  have f: "files ?d job_listings_csv = None" by (simp add: ex_disk_def)
  have "save_to_csv ex_scraper job_listings_csv ?d
       = (Inr (), ?d, [(WARNING, ascii ''No data to save'')])"
    using save_to_csv_rows [of ex_scraper job_listings_csv ?d "[]" "[]" "[]"] a
    by simp
  moreover have "save_to_csv ex_saved job_listings_csv ?d
       = (Inr (),
          ?d\<lparr>files := (files ?d)(job_listings_csv \<mapsto>
               Written (map Str (map fst ?r1) # map (cells (map fst ?r1)) (data ex_saved)))\<rparr>,
          [(INFO, ascii ''Data saved to '' @ job_listings_csv)])"
    using save_to_csv_rows [of ex_saved job_listings_csv ?d ?r1 "[?r2]" ?r1] b c w k h o
    by blast
  then have "save_to_csv ex_saved job_listings_csv ?d
       = (Inr (),
          ?d\<lparr>files := [job_listings_csv \<mapsto>
               Written [[Str (ascii ''Firma''), Str (ascii ''Link'')],
                        [Str (ascii ''A''), Str (ascii ''x'')],
                        [Str (ascii ''B''), Str (ascii ''y'')]]]\<rparr>,
          [(INFO, ascii ''Data saved to job_listings.csv'')])"
    using e e [symmetric]
    by (simp add: ex_saved_def cells_def ex_disk_def job_listings_csv_def k_firma_def k_link_def
        ascii_def)
  ultimately show ?thesis using a b c f by simp
qed

text \<open>
  C9, as the code has it. Take a scraper with a record to write. When opening the path
  raises an \<open>IOError\<close>, \<open>save_to_csv\<close> logs the line of level \<open>ERROR\<close> with the text
  \<open>Error saving to CSV:\<close> and the text of the exception, leaves the disk as it was and
  returns \<open>None\<close>. When the path opens, the first \<open>n\<close> rows (the header is the first) are
  handed over and then a write or the close raises an \<open>IOError\<close>, it logs the same line
  for that exception and returns \<open>None\<close>, with the file created or truncated. In both
  cases nothing is raised, and \<open>main\<close> ends with exit status 0.
\<close>

theorem save_to_csv_io_error:
  assumes "data self = first # rest"
  shows "(open_error d filename = Some msg \<longrightarrow>
            save_to_csv self filename d
              = (Inr (), d, [(ERROR, ascii ''Error saving to CSV: '' @ msg)])
            \<and> (filename = job_listings_csv \<longrightarrow> exit_status self d = 0))
     \<and> (open_error d filename = None
         \<and> take (length lines)
              (Inr (map Str (map fst first)) # map (dict_to_list (map fst first)) (data self))
             = map Inr lines
         \<and> (\<forall>line\<in>set lines. list_all cell_encodable line)
         \<and> (\<forall>m<length lines. write_error d filename m = None)
         \<and> write_error d filename (length lines) = Some msg \<longrightarrow>
            save_to_csv self filename d
              = (Inr (), d\<lparr>files := (files d)(filename \<mapsto> Torn lines)\<rparr>,
                 [(ERROR, ascii ''Error saving to CSV: '' @ msg)])
            \<and> (filename = job_listings_csv \<longrightarrow> exit_status self d = 0))"
proof -
  have a: "save_to_csv self filename d
              = (Inr (), d, [(ERROR, ascii ''Error saving to CSV: '' @ msg)])"
    if "open_error d filename = Some msg"
    using that assms by (simp add: save_to_csv_def)
  have b: "save_to_csv self filename d
              = (Inr (), d\<lparr>files := (files d)(filename \<mapsto> Torn lines)\<rparr>,
                 [(ERROR, ascii ''Error saving to CSV: '' @ msg)])"
    if o: "open_error d filename = None"
      and t: "take (length lines)
              (Inr (map Str (map fst first)) # map (dict_to_list (map fst first)) (data self))
             = map Inr lines"
      and e: "\<forall>line\<in>set lines. list_all cell_encodable line"
      and w: "\<forall>m<length lines. write_error d filename m = None"
      and m: "write_error d filename (length lines) = Some msg"
  proof -
    have "write_from (write_error d filename) []
          (Inr (map Str (map fst first)) # map (dict_to_list (map fst first)) (data self))
        = (IOFailed msg, Torn ([] @ lines))"
      using t e
    proof (rule write_from_fails)
      show "\<forall>m<length lines. write_error d filename (length [] + m) = None"
        using w by simp
      show "write_error d filename (length [] + length lines) = Some msg"
        using m by simp
    qed
    then show ?thesis using assms o by (simp add: save_to_csv_def Let_def del: write_from.simps)
  qed
  have c: "exit_status self d = 0"
    if "fst (save_to_csv self filename d) = Inr ()" and "filename = job_listings_csv"
    using that by (simp add: exit_status_def)
  show ?thesis using a b c by (metis fst_conv)
qed

theorem save_to_csv_io_error_witness:
  "data ex_saved = [(k_firma, Str (ascii ''A'')), (k_link, Str (ascii ''x''))]
                     # [[(k_link, Str (ascii ''y'')), (k_firma, Str (ascii ''B''))]]
   \<and> open_error (ex_disk (Some (ascii ''Permission denied'')) (\<lambda>n. None)) job_listings_csv
       = Some (ascii ''Permission denied'')
   \<and> save_to_csv ex_saved job_listings_csv (ex_disk (Some (ascii ''Permission denied'')) (\<lambda>n. None))
       = (Inr (), ex_disk (Some (ascii ''Permission denied'')) (\<lambda>n. None),
          [(ERROR, ascii ''Error saving to CSV: Permission denied'')])
   \<and> exit_status ex_saved (ex_disk (Some (ascii ''Permission denied'')) (\<lambda>n. None)) = 0
   \<and> write_error (ex_disk None (\<lambda>n. if n = 2 then Some (ascii ''No space left'') else None))
        job_listings_csv 2 = Some (ascii ''No space left'')
   \<and> save_to_csv ex_saved job_listings_csv
        (ex_disk None (\<lambda>n. if n = 2 then Some (ascii ''No space left'') else None))
       = (Inr (),
          (ex_disk None (\<lambda>n. if n = 2 then Some (ascii ''No space left'') else None))
            \<lparr>files := [job_listings_csv \<mapsto>
               Torn [[Str (ascii ''Firma''), Str (ascii ''Link'')],
                     [Str (ascii ''A''), Str (ascii ''x'')]]]\<rparr>,
          [(ERROR, ascii ''Error saving to CSV: No space left'')])
   \<and> exit_status ex_saved
        (ex_disk None (\<lambda>n. if n = 2 then Some (ascii ''No space left'') else None)) = 0"
proof -
  let ?r1 = "[(k_firma, Str (ascii ''A'')), (k_link, Str (ascii ''x''))]"
  let ?r2 = "[(k_link, Str (ascii ''y'')), (k_firma, Str (ascii ''B''))]"
  let ?denied = "ex_disk (Some (ascii ''Permission denied'')) (\<lambda>n. None)"
  let ?full = "ex_disk None (\<lambda>n. if n = 2 then Some (ascii ''No space left'') else None)"
  let ?lines = "[[Str (ascii ''Firma''), Str (ascii ''Link'')],
                 [Str (ascii ''A''), Str (ascii ''x'')]]"
  have b: "data ex_saved = ?r1 # [?r2]" by (simp add: ex_saved_def)
  have a: "open_error ?denied job_listings_csv = Some (ascii ''Permission denied'')"
    by (simp add: ex_disk_def)
  have e: "k_firma \<noteq> k_link" by (simp add: k_firma_def k_link_def ascii_def)
  have o: "open_error ?full job_listings_csv = None" by (simp add: ex_disk_def)
  have t: "take (length ?lines)
        (Inr (map Str (map fst ?r1)) # map (dict_to_list (map fst ?r1)) (data ex_saved))
      = map Inr ?lines"
    using e by (simp add: ex_saved_def dict_to_list_def cells_def k_firma_def k_link_def ascii_def)
  have c: "\<forall>line\<in>set ?lines. list_all cell_encodable line"
    by (simp add: encodable_def ascii_def)
  have w: "\<forall>m<length ?lines. write_error ?full job_listings_csv m = None"
    by (simp add: ex_disk_def)
  have m: "write_error ?full job_listings_csv (length ?lines) = Some (ascii ''No space left'')"
    by (simp add: ex_disk_def)
  have "save_to_csv ex_saved job_listings_csv ?denied
       = (Inr (), ?denied, [(ERROR, ascii ''Error saving to CSV: '' @ ascii ''Permission denied'')])
     \<and> exit_status ex_saved ?denied = 0"
    using save_to_csv_io_error [OF b, of ?denied job_listings_csv "ascii ''Permission denied''" "[]"] a
    by simp
  then have r1: "save_to_csv ex_saved job_listings_csv ?denied
       = (Inr (), ?denied, [(ERROR, ascii ''Error saving to CSV: Permission denied'')])"
    and x1: "exit_status ex_saved ?denied = 0"
    by (simp_all add: ascii_def)
  have "save_to_csv ex_saved job_listings_csv ?full
       = (Inr (), ?full\<lparr>files := (files ?full)(job_listings_csv \<mapsto> Torn ?lines)\<rparr>,
          [(ERROR, ascii ''Error saving to CSV: '' @ ascii ''No space left'')])
     \<and> exit_status ex_saved ?full = 0"
    using save_to_csv_io_error [OF b, of ?full job_listings_csv "ascii ''No space left''" ?lines]
      o t c w m
    by blast
  then have r2: "save_to_csv ex_saved job_listings_csv ?full
       = (Inr (),
          ?full\<lparr>files := [job_listings_csv \<mapsto> Torn ?lines]\<rparr>,
          [(ERROR, ascii ''Error saving to CSV: No space left'')])"
    and x2: "exit_status ex_saved ?full = 0"
    by (simp_all add: ascii_def ex_disk_def)
  have m2: "write_error ?full job_listings_csv 2 = Some (ascii ''No space left'')"
    by (simp add: ex_disk_def)
  show ?thesis using b a r1 x1 m2 r2 x2 by simp
qed

text \<open>
  C9 as stated fails in one part: the failure is not reported to the caller. On a path
  that cannot be opened, and on a disk that refuses the first write, \<open>save_to_csv\<close>
  returns what it returns when the file is saved.
\<close>

theorem save_to_csv_failure_not_reported:
  "open_error (ex_disk (Some (ascii ''Permission denied'')) (\<lambda>n. None)) job_listings_csv \<noteq> None
   \<and> write_error (ex_disk None (\<lambda>n. Some (ascii ''No space left''))) job_listings_csv 0 \<noteq> None
   \<and> snd (snd (save_to_csv ex_saved job_listings_csv (ex_disk None (\<lambda>n. None))))
       = [(INFO, ascii ''Data saved to job_listings.csv'')]
   \<and> fst (save_to_csv ex_saved job_listings_csv (ex_disk (Some (ascii ''Permission denied'')) (\<lambda>n. None)))
       = fst (save_to_csv ex_saved job_listings_csv (ex_disk None (\<lambda>n. None)))
   \<and> fst (save_to_csv ex_saved job_listings_csv (ex_disk None (\<lambda>n. Some (ascii ''No space left''))))
       = fst (save_to_csv ex_saved job_listings_csv (ex_disk None (\<lambda>n. None)))"
  by (simp add: save_to_csv_def ex_disk_def ex_saved_def dict_to_list_def Let_def cells_def
      encodable_def job_listings_csv_def k_firma_def k_link_def ascii_def)


end
